theory Spec2Isabelle
  imports Main
begin

section \<open>Python string primitives used by \<open>rest.py\<close>\<close>

text \<open>
  A Python \<open>str\<close> is a sequence of code points. It is modelled as a \<open>string\<close>, each
  \<open>char\<close> read as one code point in the range U+0000 to U+00FF. The library functions
  below are the ones \<open>rest.py\<close> calls, restricted to that range.
\<close>

abbreviation NL :: char where "NL \<equiv> CHR 0x0A"
abbreviation CR :: char where "CR \<equiv> CHR 0x0D"
abbreviation TAB :: char where "TAB \<equiv> CHR 0x09"
abbreviation SP :: char where "SP \<equiv> CHR 0x20"
abbreviation COLON :: char where "COLON \<equiv> CHR 0x3A"
abbreviation DOT :: char where "DOT \<equiv> CHR 0x2E"
abbreviation QMARK :: char where "QMARK \<equiv> CHR 0x3F"
abbreviation DQUOTE :: char where "DQUOTE \<equiv> CHR 0x22"

text \<open>\<open>str.isspace\<close> on one code point below 256: U+0009..U+000D, U+001C..U+0020,
  U+0085 and U+00A0.\<close>

definition is_space :: "char \<Rightarrow> bool" where
  "is_space c \<longleftrightarrow> c \<in> set [CHR 0x09, CHR 0x0A, CHR 0x0B, CHR 0x0C, CHR 0x0D,
     CHR 0x1C, CHR 0x1D, CHR 0x1E, CHR 0x1F, CHR 0x20, CHR 0x85, CHR 0xA0]"

text \<open>\<open>s.lstrip()\<close>, \<open>s.rstrip()\<close>, \<open>s.strip()\<close>.\<close>

definition lstrip :: "string \<Rightarrow> string" where
  "lstrip s = dropWhile is_space s"

definition rstrip :: "string \<Rightarrow> string" where
  "rstrip s = rev (dropWhile is_space (rev s))"

definition strip :: "string \<Rightarrow> string" where
  "strip s = lstrip (rstrip s)"

text \<open>\<open>s.lstrip(c)\<close> and \<open>s.rstrip(c)\<close> for a one-character argument.\<close>

definition lstrip_char :: "char \<Rightarrow> string \<Rightarrow> string" where
  "lstrip_char c s = dropWhile (\<lambda>x. x = c) s"

definition rstrip_char :: "char \<Rightarrow> string \<Rightarrow> string" where
  "rstrip_char c s = rev (dropWhile (\<lambda>x. x = c) (rev s))"

text \<open>\<open>s.split()\<close>: the maximal runs of non-whitespace characters.\<close>

fun split_ws :: "string \<Rightarrow> string list" where
  "split_ws [] = []"
| "split_ws (c # cs) =
     (if is_space c then split_ws cs
      else if cs = [] \<or> is_space (hd cs) then [c] # split_ws cs
      else (case split_ws cs of w # ws \<Rightarrow> (c # w) # ws | [] \<Rightarrow> [[c]]))"

text \<open>\<open>s.split(sep)\<close> for a one-character separator: never empty, \<open>''''.split(sep) = ['''']\<close>.\<close>

fun split_on :: "char \<Rightarrow> string \<Rightarrow> string list" where
  "split_on sep [] = [[]]"
| "split_on sep (c # cs) =
     (if c = sep then [] # split_on sep cs
      else (case split_on sep cs of l # ls \<Rightarrow> (c # l) # ls | [] \<Rightarrow> [[c]]))"

text \<open>\<open>s.split(sep, 1)\<close>: one element when \<open>sep\<close> does not occur, else the text before the
  first occurrence and the text after it.\<close>

definition split1 :: "char \<Rightarrow> string \<Rightarrow> string list" where
  "split1 sep s =
     (if sep \<in> set s
      then [takeWhile (\<lambda>x. x \<noteq> sep) s, tl (dropWhile (\<lambda>x. x \<noteq> sep) s)]
      else [s])"

text \<open>\<open>sep.join(xs)\<close>.\<close>

fun join :: "string \<Rightarrow> string list \<Rightarrow> string" where
  "join sep [] = []"
| "join sep [x] = x"
| "join sep (x # y # ys) = x @ sep @ join sep (y # ys)"

text \<open>\<open>s.expandtabs()\<close> with the default tab size 8: a tab becomes the spaces up to the
  next multiple of 8 of the column, and the column restarts after a line feed or a carriage
  return.\<close>

fun expandtabs_from :: "nat \<Rightarrow> string \<Rightarrow> string" where
  "expandtabs_from col [] = []"
| "expandtabs_from col (c # cs) =
     (if c = TAB
      then replicate (8 - col mod 8) SP @ expandtabs_from (col + (8 - col mod 8)) cs
      else c # expandtabs_from (if c = NL \<or> c = CR then 0 else col + 1) cs)"

definition expandtabs :: "string \<Rightarrow> string" where
  "expandtabs s = expandtabs_from 0 s"

text \<open>\<open>s.splitlines()\<close>: the line boundaries below U+0100 are LF, CR, CR LF, VT, FF, FS,
  GS, RS and NEL; a final line break opens no further line.\<close>

definition is_linebreak :: "char \<Rightarrow> bool" where
  "is_linebreak c \<longleftrightarrow> c \<in> set [CHR 0x0A, CHR 0x0B, CHR 0x0C, CHR 0x0D,
     CHR 0x1C, CHR 0x1D, CHR 0x1E, CHR 0x85]"

fun splitlines_acc :: "string \<Rightarrow> string \<Rightarrow> string list" where
  "splitlines_acc cur [] = (if cur = [] then [] else [rev cur])"
| "splitlines_acc cur [c] = (if is_linebreak c then [rev cur] else [rev (c # cur)])"
| "splitlines_acc cur (c # d # cs) =
     (if c = CR \<and> d = NL then rev cur # splitlines_acc [] cs
      else if is_linebreak c then rev cur # splitlines_acc [] (d # cs)
      else splitlines_acc (c # cur) (d # cs))"

definition splitlines :: "string \<Rightarrow> string list" where
  "splitlines s = splitlines_acc [] s"

text \<open>
  \<open>inspect.cleandoc(doc)\<close> as in CPython up to 3.12:
  \<^verbatim>\<open>
    lines = doc.expandtabs().split('\n')
    margin = sys.maxsize
    for line in lines[1:]:
        content = len(line.lstrip())
        if content:
            indent = len(line) - content
            margin = min(margin, indent)
    if lines:
        lines[0] = lines[0].lstrip()
    if margin < sys.maxsize:
        for i in range(1, len(lines)): lines[i] = lines[i][margin:]
    while lines and not lines[-1]:
        lines.pop()
    while lines and not lines[0]:
        lines.pop(0)
    return '\n'.join(lines)
  \<close>
  The margin \<open>sys.maxsize\<close> (no non-blank line seen) is \<open>None\<close>.
\<close>

definition margin_step :: "string \<Rightarrow> nat option \<Rightarrow> nat option" where
  "margin_step line margin =
     (let content = length (lstrip line) in
      if content \<noteq> 0
      then (let indent = length line - content in
            case margin of None \<Rightarrow> Some indent | Some m \<Rightarrow> Some (min m indent))
      else margin)"

definition cleandoc :: "string \<Rightarrow> string" where
  "cleandoc doc =
     (let lines = split_on NL (expandtabs doc);
          margin = fold margin_step (tl lines) None;
          lines = (case lines of [] \<Rightarrow> [] | l # ls \<Rightarrow> lstrip l # ls);
          lines = (case margin of
                     None \<Rightarrow> lines
                   | Some m \<Rightarrow> (case lines of [] \<Rightarrow> [] | l # ls \<Rightarrow> l # map (drop m) ls));
          lines = rev (dropWhile (\<lambda>l. l = []) (rev lines));
          lines = dropWhile (\<lambda>l. l = []) lines
      in join [NL] lines)"

section \<open>The data model of \<open>common.py\<close>\<close>

text \<open>
  Modelled from the spec: \<open>common.py\<close> is not among the sources. The record classes are
  taken from the constructor calls of \<open>rest.py\<close> and from section 3 of the specification:
  every metadata record carries \<open>args\<close> (the raw tokens) and \<open>description\<close>; the
  variants add the fields that \<open>_build_meta\<close> passes.
\<close>

datatype meta =
    DocstringMeta (args: "string list") (description: "string option")
  | DocstringParam (args: "string list") (description: "string option")
      (arg_name: string) (type_name: "string option") (is_optional: "bool option")
      (default: "string option")
  | DocstringReturns (args: "string list") (description: "string option")
      (type_name: "string option") (is_generator: bool)
  | DocstringRaises (args: "string list") (description: "string option")
      (type_name: "string option")
  | DocstringDeprecated (args: "string list") (description: "string option")
      (version: "string option")

datatype docstring_style = REST

datatype rendering_style = COMPACT | CLEAN | EXPANDED

record docstring =
  short_description :: "string option"
  long_description :: "string option"
  blank_after_short_description :: bool
  blank_after_long_description :: bool
  meta :: "meta list"
  style :: "docstring_style option"

text \<open>
  Modelled from the spec: the constructor \<open>Docstring(style)\<close> of \<open>common.py\<close>. The
  specification's empty document has no description, both blank-line flags false and no
  items.
\<close>

definition Docstring :: "docstring_style option \<Rightarrow> docstring" where
  "Docstring st =
     \<lparr> short_description = None, long_description = None,
       blank_after_short_description = False, blank_after_long_description = False,
       meta = [], style = st \<rparr>"

text \<open>
  The keyword sets \<open>PARAM_KEYWORDS\<close>, \<open>RAISES_KEYWORDS\<close>, \<open>RETURNS_KEYWORDS\<close>,
  \<open>YIELDS_KEYWORDS\<close> and \<open>DEPRECATION_KEYWORDS\<close> are constants of \<open>common.py\<close>;
  the functions below take them as a parameter.
\<close>

record keyword_sets =
  PARAM_KEYWORDS :: "string set"
  RAISES_KEYWORDS :: "string set"
  RETURNS_KEYWORDS :: "string set"
  YIELDS_KEYWORDS :: "string set"
  DEPRECATION_KEYWORDS :: "string set"

text \<open>
  Modelled from the spec: a keyword configuration holding the keywords the specification
  names for each family.
\<close>

definition rest_keywords :: keyword_sets where
  "rest_keywords =
     \<lparr> PARAM_KEYWORDS = {''param''}, RAISES_KEYWORDS = {''raises''},
       RETURNS_KEYWORDS = {''returns''}, YIELDS_KEYWORDS = {''yields''},
       DEPRECATION_KEYWORDS = {''deprecated''} \<rparr>"

datatype error = ParseError string | IndexError

section \<open>The two regular expressions of \<open>_build_meta\<close>\<close>

text \<open>
  \<open>re.match(r".*defaults to (.+)", desc, flags=re.DOTALL)\<close>: the greedy prefix takes the
  last position at which \<open>defaults to \<close> (with its space) is followed by at least one
  character; group 1 is everything after it. The result is group 1, or \<open>None\<close>.
\<close>

fun match_defaults :: "string \<Rightarrow> string option" where
  "match_defaults [] = None"
| "match_defaults (c # cs) =
     (case match_defaults cs of
        Some g \<Rightarrow> Some g
      | None \<Rightarrow>
          (if take 12 (c # cs) = ''defaults to '' \<and> drop 12 (c # cs) \<noteq> []
           then Some (drop 12 (c # cs)) else None))"

text \<open>
  \<open>re.search(r"^(?P<version>v?((?:\d+)(?:\.[0-9a-z\.]+))) (?P<desc>.+)", desc, flags=re.I)\<close>:
  without \<open>re.M\<close> the anchor holds at position 0 only. An optional \<open>v\<close> or \<open>V\<close>, a
  maximal run of digits, a dot, a maximal run of letters, digits and dots, one space, and
  then, since \<open>.\<close> stops at a line feed without \<open>re.DOTALL\<close>, the non-empty rest of the
  first line. No shorter run can match, because the character after a shorter run is in
  the run's class. The result is the pair (version, desc).
\<close>

definition is_digit :: "char \<Rightarrow> bool" where
  "is_digit c \<longleftrightarrow> c \<in> set ''0123456789''"

definition is_version_char :: "char \<Rightarrow> bool" where
  "is_version_char c \<longleftrightarrow>
     is_digit c \<or> c \<in> set ''abcdefghijklmnopqrstuvwxyz''
     \<or> c \<in> set ''ABCDEFGHIJKLMNOPQRSTUVWXYZ'' \<or> c = DOT"

definition match_version :: "string \<Rightarrow> (string \<times> string) option" where
  "match_version desc =
     (let v = (case desc of c # _ \<Rightarrow> if c = CHR ''v'' \<or> c = CHR ''V'' then [c] else [] | [] \<Rightarrow> []);
          s1 = drop (length v) desc;
          digits = takeWhile is_digit s1;
          s2 = dropWhile is_digit s1
      in if digits = [] then None
         else (case s2 of
                 [] \<Rightarrow> None
               | d # s3 \<Rightarrow>
                   if d \<noteq> DOT then None
                   else (let seg = takeWhile is_version_char s3;
                             s4 = dropWhile is_version_char s3
                         in if seg = [] then None
                            else (case s4 of
                                    [] \<Rightarrow> None
                                  | e # s5 \<Rightarrow>
                                      if e \<noteq> SP then None
                                      else (let rest = takeWhile (\<lambda>x. x \<noteq> NL) s5
                                            in if rest = [] then None
                                               else Some (v @ digits @ [DOT] @ seg, rest))))))"

section \<open>\<open>_build_meta\<close>\<close>

definition build_meta :: "keyword_sets \<Rightarrow> string list \<Rightarrow> string \<Rightarrow> error + meta" where
  "build_meta kw args' desc =
     (case args' of
        [] \<Rightarrow> Inl IndexError
      | key # _ \<Rightarrow>
          if key \<in> PARAM_KEYWORDS kw then
            (if length args' = 3 then
               (let type_name' = args' ! 1;
                    arg_name' = args' ! 2;
                    default' = map_option (rstrip_char DOT) (match_defaults desc)
                in if type_name' \<noteq> [] \<and> last type_name' = QMARK
                   then Inr (DocstringParam args' (Some desc) arg_name'
                              (Some (butlast type_name')) (Some True) default')
                   else Inr (DocstringParam args' (Some desc) arg_name'
                              (Some type_name') (Some False) default'))
             else if length args' = 2 then
               (let arg_name' = args' ! 1;
                    default' = map_option (rstrip_char DOT) (match_defaults desc)
                in Inr (DocstringParam args' (Some desc) arg_name' None None default'))
             else Inl (ParseError
                        (''Expected one or two arguments for a '' @ key @ '' keyword.'')))
          else if key \<in> RETURNS_KEYWORDS kw \<union> YIELDS_KEYWORDS kw then
            (if length args' = 2 then
               Inr (DocstringReturns args' (Some desc) (Some (args' ! 1))
                      (key \<in> YIELDS_KEYWORDS kw))
             else if length args' = 1 then
               Inr (DocstringReturns args' (Some desc) None (key \<in> YIELDS_KEYWORDS kw))
             else Inl (ParseError
                        (''Expected one or no arguments for a '' @ key @ '' keyword.'')))
          else if key \<in> DEPRECATION_KEYWORDS kw then
            (case match_version desc of
               Some (ver, d) \<Rightarrow> Inr (DocstringDeprecated args' (Some d) (Some ver))
             | None \<Rightarrow> Inr (DocstringDeprecated args' (Some desc) None))
          else if key \<in> RAISES_KEYWORDS kw then
            (if length args' = 2 then
               Inr (DocstringRaises args' (Some desc) (Some (args' ! 1)))
             else if length args' = 1 then
               Inr (DocstringRaises args' (Some desc) None)
             else Inl (ParseError
                        (''Expected one or no arguments for a '' @ key @ '' keyword.'')))
          else Inr (DocstringMeta args' (Some desc)))"

section \<open>\<open>parse\<close>\<close>

text \<open>
  \<open>re.search("^:", text, flags=re.M)\<close>: the first position that holds a colon and is at
  the start of the text or right after a line feed. The flag says whether the current
  position is at a line start.
\<close>

fun search_line_colon :: "bool \<Rightarrow> string \<Rightarrow> nat option" where
  "search_line_colon bol [] = None"
| "search_line_colon bol (c # cs) =
     (if bol \<and> c = COLON then Some 0
      else map_option Suc (search_line_colon (c = NL) cs))"

text \<open>
  \<open>re.finditer(r"(^:.*?)(?=^:|\Z)", meta_chunk, flags=re.S | re.M)\<close>: a match starts at
  a colon at a line start and, being lazy, ends right before the next colon at a line
  start, or at the end of the text; the search goes on from there. So the matches are the
  pieces of the text, from its first colon at a line start on, cut before every later
  colon at a line start. \<open>split_blocks\<close> cuts a text that starts at a match.
\<close>

fun split_blocks :: "string \<Rightarrow> string list" where
  "split_blocks [] = []"
| "split_blocks [c] = [[c]]"
| "split_blocks (c # d # cs) =
     (if c = NL \<and> d = COLON then [c] # split_blocks (d # cs)
      else (case split_blocks (d # cs) of b # bs \<Rightarrow> (c # b) # bs | [] \<Rightarrow> [[c]]))"

definition finditer_blocks :: "string \<Rightarrow> string list" where
  "finditer_blocks s =
     (case search_line_colon True s of
        None \<Rightarrow> []
      | Some p \<Rightarrow> split_blocks (drop p s))"

text \<open>The body of the loop over the matches, for one chunk.\<close>

definition parse_chunk :: "keyword_sets \<Rightarrow> string \<Rightarrow> error + meta" where
  "parse_chunk kw chunk =
     (case split1 COLON (lstrip_char COLON chunk) of
        [args_chunk, desc_chunk] \<Rightarrow>
          (let toks = split_ws args_chunk;
               desc = strip desc_chunk;
               desc = (if NL \<in> set desc
                       then (case split1 NL desc of
                               [first_line, rest] \<Rightarrow> first_line @ [NL] @ cleandoc rest
                             | _ \<Rightarrow> desc)
                       else desc)
           in build_meta kw toks desc)
      | _ \<Rightarrow> Inl (ParseError
                 (''Error parsing meta information near '' @ [DQUOTE] @ chunk @ [DQUOTE]
                  @ ''.'')))"

fun parse_chunks :: "keyword_sets \<Rightarrow> string list \<Rightarrow> error + meta list" where
  "parse_chunks kw [] = Inr []"
| "parse_chunks kw (chunk # chunks) =
     (if chunk = [] then parse_chunks kw chunks
      else (case parse_chunk kw chunk of
              Inl e \<Rightarrow> Inl e
            | Inr m \<Rightarrow>
                (case parse_chunks kw chunks of
                   Inl e \<Rightarrow> Inl e
                 | Inr ms \<Rightarrow> Inr (m # ms))))"

definition or_none :: "string \<Rightarrow> string option" where
  "or_none s = (if s = [] then None else Some s)"

definition ends_with :: "string \<Rightarrow> string \<Rightarrow> bool" where
  "ends_with s suffix \<longleftrightarrow> length suffix \<le> length s \<and> drop (length s - length suffix) s = suffix"

definition starts_with :: "string \<Rightarrow> string \<Rightarrow> bool" where
  "starts_with s pre \<longleftrightarrow> take (length pre) s = pre"

definition parse :: "keyword_sets \<Rightarrow> string \<Rightarrow> error + docstring" where
  "parse kw text0 =
     (let ret = Docstring (Some REST) in
      if text0 = [] then Inr ret
      else
        (let text = cleandoc text0;
             (desc_chunk, meta_chunk) =
               (case search_line_colon True text of
                  Some p \<Rightarrow> (take p text, drop p text)
                | None \<Rightarrow> (text, []));
             parts = split1 NL desc_chunk;
             ret = ret\<lparr>short_description := or_none (hd parts)\<rparr>;
             ret = (if length parts > 1
                    then (let long_desc_chunk = parts ! 1
                          in ret\<lparr>blank_after_short_description :=
                                   starts_with long_desc_chunk [NL],
                                 blank_after_long_description :=
                                   ends_with long_desc_chunk [NL, NL],
                                 long_description := or_none (strip long_desc_chunk)\<rparr>)
                    else ret)
         in case parse_chunks kw (finditer_blocks meta_chunk) of
              Inl e \<Rightarrow> Inl e
            | Inr ms \<Rightarrow> Inr (ret\<lparr>meta := meta ret @ ms\<rparr>)))"

section \<open>\<open>compose\<close>\<close>

definition process_desc :: "rendering_style \<Rightarrow> string \<Rightarrow> string option \<Rightarrow> string" where
  "process_desc rendering_style indent desc =
     (case desc of
        None \<Rightarrow> []
      | Some d \<Rightarrow>
          if d = [] then []
          else if rendering_style = CLEAN then
            (let ls = splitlines d
             in join [NL] (([SP] @ hd ls) # map (\<lambda>line. indent @ line) (tl ls)))
          else if rendering_style = EXPANDED then
            (let ls = splitlines d
             in join [NL] (([NL] @ indent @ hd ls) # map (\<lambda>line. indent @ line) (tl ls)))
          else [SP] @ d)"

definition truthy :: "string option \<Rightarrow> bool" where
  "truthy s \<longleftrightarrow> (case s of None \<Rightarrow> False | Some x \<Rightarrow> x \<noteq> [])"

definition compose_meta :: "rendering_style \<Rightarrow> string \<Rightarrow> meta \<Rightarrow> string" where
  "compose_meta rendering_style indent m =
     (case m of
        DocstringParam a d arg_n type_n is_opt dflt \<Rightarrow>
          (let type_text =
                 (if truthy type_n
                  then (if is_opt = Some True then [SP] @ the type_n @ ''? ''
                        else [SP] @ the type_n @ [SP])
                  else [SP])
           in '':param'' @ type_text @ arg_n @ '':''
                @ process_desc rendering_style indent d)
      | DocstringReturns a d type_n is_gen \<Rightarrow>
          (let type_text = (if truthy type_n then [SP] @ the type_n @ [SP] else []);
               key = (if is_gen then ''yields'' else ''returns'')
           in '':'' @ key @ type_text @ '':'' @ process_desc rendering_style indent d)
      | DocstringRaises a d type_n \<Rightarrow>
          (let type_text = (if truthy type_n then [SP] @ the type_n @ [SP] else [])
           in '':raises'' @ type_text @ '':'' @ process_desc rendering_style indent d)
      | _ \<Rightarrow> '':'' @ join [SP] (args m) @ '':'' @ process_desc rendering_style indent (description m))"


section \<open>Documents that survive a round trip\<close>

text \<open>
  \<open>tag_chunk m\<close> is the text that \<open>compose\<close> writes between the two colons of the tag
  line of the record \<open>m\<close>: \<open>compose_meta\<close> is a colon, \<open>tag_chunk m\<close>, a colon and the
  processed description.
\<close>

definition tag_chunk :: "meta \<Rightarrow> string" where
  "tag_chunk m =
     (case m of
        DocstringParam a d arg_n type_n is_opt dflt \<Rightarrow>
          ''param'' @ (if truthy type_n
                       then (if is_opt = Some True then [SP] @ the type_n @ ''? ''
                             else [SP] @ the type_n @ [SP])
                       else [SP]) @ arg_n
      | DocstringReturns a d type_n is_gen \<Rightarrow>
          (if is_gen then ''yields'' else ''returns'')
            @ (if truthy type_n then [SP] @ the type_n @ [SP] else [])
      | DocstringRaises a d type_n \<Rightarrow>
          ''raises'' @ (if truthy type_n then [SP] @ the type_n @ [SP] else [])
      | _ \<Rightarrow> join [SP] (args m))"

text \<open>A non-empty text on one line, without tabs and without whitespace at either end.\<close>

definition plain_line :: "string \<Rightarrow> bool" where
  "plain_line s \<longleftrightarrow>
     s \<noteq> [] \<and> \<not> is_space (hd s) \<and> \<not> is_space (last s)
     \<and> (\<forall>c\<in>set s. \<not> is_linebreak c \<and> c \<noteq> TAB)"

text \<open>
  A record is stable when it is what \<open>_build_meta\<close> builds from its own raw tokens and its
  description, the description being empty or one plain line, and when the tag chunk that
  \<open>compose\<close> derives from its fields splits back into those raw tokens.
\<close>

definition stable_record :: "keyword_sets \<Rightarrow> meta \<Rightarrow> bool" where
  "stable_record kw m \<longleftrightarrow>
     (case description m of
        None \<Rightarrow> False
      | Some desc \<Rightarrow> (desc = [] \<or> plain_line desc) \<and> build_meta kw (args m) desc = Inr m)
     \<and> split_ws (tag_chunk m) = args m
     \<and> (\<forall>c\<in>set (tag_chunk m). c \<noteq> COLON \<and> c \<noteq> NL \<and> c \<noteq> TAB)"




text \<open>Auxiliary notions of the proofs: the processed description of a plain line, texts
  without a colon at a line start after their first character, the line feeds that the
  blank-line flags and the long description contribute, and the fields that \<open>parse\<close>
  reads from a preamble.\<close>

definition desc_body :: "rendering_style \<Rightarrow> string \<Rightarrow> string \<Rightarrow> string" where
  "desc_body st ind desc =
     (if desc = [] then [] else if st = EXPANDED then NL # ind @ desc else SP # desc)"






section \<open>Facts about the string primitives\<close>

lemma expandtabs_from_id: "TAB \<notin> set s \<Longrightarrow> expandtabs_from col s = s"
  by (induction s arbitrary: col) auto

lemma expandtabs_id: "TAB \<notin> set s \<Longrightarrow> expandtabs s = s"
  by (simp add: expandtabs_def expandtabs_from_id)

lemma split_on_no_sep: "sep \<notin> set s \<Longrightarrow> split_on sep s = [s]"
  by (induction s) auto

lemma split_on_not_Nil: "split_on sep s \<noteq> []"
  by (induction s) (auto split: list.splits)

lemma lstrip_id: "s = [] \<or> \<not> is_space (hd s) \<Longrightarrow> lstrip s = s"
  by (cases s) (auto simp: lstrip_def)

lemma cleandoc_single_line:
  assumes "NL \<notin> set s" "TAB \<notin> set s" "s \<noteq> []" "\<not> is_space (hd s)"
  shows "cleandoc s = s"
  using assms by (simp add: cleandoc_def expandtabs_id split_on_no_sep lstrip_id)

lemma split_blocks_not_Nil: "s \<noteq> [] \<Longrightarrow> split_blocks s \<noteq> []"
  by (induction s rule: split_blocks.induct) (auto split: list.splits)

lemma split_blocks_single: "NL \<notin> set s \<Longrightarrow> s \<noteq> [] \<Longrightarrow> split_blocks s = [s]"
  by (induction s rule: split_blocks.induct) (auto split: list.splits)

lemma split1_hit: "sep \<notin> set a \<Longrightarrow> split1 sep (a @ sep # b) = [a, b]"
  by (induction a) (auto simp: split1_def)

lemma split1_miss: "sep \<notin> set s \<Longrightarrow> split1 sep s = [s]"
  by (simp add: split1_def)

lemma parse_chunk_eq:
  assumes "tagc \<noteq> []" "COLON \<notin> set tagc" "NL \<notin> set (strip body)"
  shows "parse_chunk kw (COLON # tagc @ COLON # body)
         = build_meta kw (split_ws tagc) (strip body)"
proof -
  have "lstrip_char COLON (COLON # tagc @ COLON # body) = tagc @ COLON # body"
    using assms(1,2) by (cases tagc) (auto simp: lstrip_char_def)
  then show ?thesis
    using assms(2,3) by (simp add: parse_chunk_def split1_hit)
qed



lemma rstrip_id: "s = [] \<or> \<not> is_space (last s) \<Longrightarrow> rstrip s = s"
  by (cases s rule: rev_cases) (auto simp: rstrip_def)


lemma strip_id: "s = [] \<or> (\<not> is_space (hd s) \<and> \<not> is_space (last s)) \<Longrightarrow> strip s = s"
  by (auto simp: strip_def rstrip_id lstrip_id)

lemma strip_Cons_space: "is_space c \<Longrightarrow> strip (c # s) = strip s"
proof -
  assume c: "is_space c"
  show ?thesis
  proof (cases "\<forall>x\<in>set s. is_space x")
    case True
    then have h: "dropWhile is_space (rev s @ [c]) = []" "dropWhile is_space (rev s) = []"
      using c by (simp_all add: dropWhile_eq_Nil_conv)
    have "rstrip (c # s) = []" "rstrip s = []"
      unfolding rstrip_def rev.simps h by simp_all
    then show ?thesis by (simp add: strip_def lstrip_def)
  next
    case False
    then have h: "dropWhile is_space (rev s @ [c]) = dropWhile is_space (rev s) @ [c]"
      by (auto simp: dropWhile_append1)
    have "rstrip (c # s) = c # rstrip s"
      unfolding rstrip_def rev.simps h by simp
    then show ?thesis using c by (simp add: strip_def lstrip_def)
  qed
qed

lemma split_ws_token:
  assumes "w \<noteq> []" "\<forall>c\<in>set w. \<not> is_space c" "rest = [] \<or> is_space (hd rest)"
  shows "split_ws (w @ rest) = w # split_ws rest"
  using assms
proof (induction w)
  case Nil
  then show ?case by simp
next
  case (Cons a w)
  show ?case
  proof (cases "w = []")
    case True
    with Cons.prems show ?thesis by (cases rest) auto
  next
    case False
    with Cons have "split_ws (w @ rest) = w # split_ws rest" by simp
    moreover have "\<not> is_space (hd (w @ rest))" using False Cons.prems by (cases w) auto
    ultimately show ?thesis using Cons.prems False by simp
  qed
qed

lemma split_ws_space: "is_space c \<Longrightarrow> split_ws (c # s) = split_ws s"
  by simp

lemma parse_single_line_block:
  assumes "tagc \<noteq> []" "COLON \<notin> set tagc" "NL \<notin> set tagc" "TAB \<notin> set tagc"
    and "NL \<notin> set body" "TAB \<notin> set body"
  shows "parse kw (COLON # tagc @ COLON # body)
         = (case build_meta kw (split_ws tagc) (strip body) of
              Inl e \<Rightarrow> Inl e
            | Inr m \<Rightarrow> Inr ((Docstring (Some REST))\<lparr>meta := [m]\<rparr>))"
proof -
  let ?t = "COLON # tagc @ COLON # body"
  have nl: "NL \<notin> set ?t" and tab: "TAB \<notin> set ?t" using assms by auto
  have sp: "\<not> is_space (hd ?t)" by (simp add: is_space_def)
  have cd: "cleandoc ?t = ?t"
    using nl tab sp by (intro cleandoc_single_line) simp_all
  have blocks: "finditer_blocks ?t = [?t]"
    using split_blocks_single [OF nl] by (simp add: finditer_blocks_def)
  have "set (strip body) \<subseteq> set body"
    by (auto simp: strip_def lstrip_def rstrip_def dest!: set_dropWhileD)
  then have "NL \<notin> set (strip body)" using assms(5) by blast
  then have chunk: "parse_chunk kw ?t = build_meta kw (split_ws tagc) (strip body)"
    using assms(1,2) by (intro parse_chunk_eq)
  show ?thesis
    unfolding parse_def Let_def
    by (simp add: cd blocks chunk split1_miss or_none_def Docstring_def split: sum.splits)
qed

lemma set_strip_subset: "set (strip s) \<subseteq> set s"
  by (auto simp: strip_def lstrip_def rstrip_def dest!: set_dropWhileD)

lemma parse_chunk_tokens:
  assumes "tagc \<noteq> []" "COLON \<notin> set tagc"
  shows "\<exists>desc. parse_chunk kw (COLON # tagc @ COLON # body)
                  = build_meta kw (split_ws tagc) desc
               \<and> (NL \<notin> set (strip body) \<longrightarrow> desc = strip body)"
proof -
  have "lstrip_char COLON (COLON # tagc @ COLON # body) = tagc @ COLON # body"
    using assms by (cases tagc) (auto simp: lstrip_char_def)
  then show ?thesis
    using assms(2) by (auto simp add: parse_chunk_def split1_hit Let_def)
qed

lemma match_defaults_append:
  "match_defaults s = Some g \<Longrightarrow> match_defaults (u @ s) = Some g"
  by (induction u) auto

lemma match_defaults_here:
  "v \<noteq> [] \<Longrightarrow> match_defaults v = None \<Longrightarrow> match_defaults (''defaults to '' @ v) = Some v"
  by simp

lemma match_defaults_Some_D:
  "match_defaults s = Some g \<Longrightarrow> \<exists>u. s = u @ ''defaults to '' @ g \<and> g \<noteq> []"
proof (induction s)
  case Nil
  then show ?case by simp
next
  case (Cons c s)
  show ?case
  proof (cases "match_defaults s")
    case None
    with Cons.prems have t: "take 12 (c # s) = ''defaults to ''" and g: "g = drop 12 (c # s)"
      and "g \<noteq> []"
      by (auto split: if_splits)
    have "c # s = take 12 (c # s) @ drop 12 (c # s)" by (simp only: append_take_drop_id)
    then have "c # s = ''defaults to '' @ g" by (simp only: t g)
    then have "c # s = [] @ ''defaults to '' @ g" by (simp only: append_Nil)
    then show ?thesis using \<open>g \<noteq> []\<close> by blast
  next
    case (Some h)
    with Cons.prems have "h = g" by simp
    with Some Cons.IH obtain u where "s = u @ ''defaults to '' @ g" "g \<noteq> []" by blast
    then have "c # s = (c # u) @ ''defaults to '' @ g" by simp
    then show ?thesis using \<open>g \<noteq> []\<close> by blast
  qed
qed

lemma match_defaults_None_iff:
  "match_defaults s = None \<longleftrightarrow> \<not> (\<exists>u v. s = u @ ''defaults to '' @ v \<and> v \<noteq> [])"
proof
  assume n: "match_defaults s = None"
  show "\<not> (\<exists>u v. s = u @ ''defaults to '' @ v \<and> v \<noteq> [])"
  proof
    assume "\<exists>u v. s = u @ ''defaults to '' @ v \<and> v \<noteq> []"
    then obtain u v where s: "s = u @ ''defaults to '' @ v" and v: "v \<noteq> []" by blast
    have "match_defaults (''defaults to '' @ v) \<noteq> None"
      using v by (auto split: option.splits)
    then obtain g where "match_defaults (''defaults to '' @ v) = Some g" by blast
    then have "match_defaults s = Some g" unfolding s by (rule match_defaults_append)
    with n show False by simp
  qed
next
  assume "\<not> (\<exists>u v. s = u @ ''defaults to '' @ v \<and> v \<noteq> [])"
  then show "match_defaults s = None"
    using match_defaults_Some_D [of s] by (cases "match_defaults s") auto
qed

lemma match_defaults_last:
  assumes "v \<noteq> []" "\<not> (\<exists>u' v'. v = u' @ ''defaults to '' @ v' \<and> v' \<noteq> [])"
  shows "match_defaults (u @ ''defaults to '' @ v) = Some v"
proof -
  have "match_defaults v = None" using assms(2) by (simp add: match_defaults_None_iff)
  then have "match_defaults (''defaults to '' @ v) = Some v"
    using assms(1) by (rule match_defaults_here [rotated])
  then show ?thesis by (rule match_defaults_append)
qed

lemma rstrip_char_snoc_other:
  "X = [] \<or> last X \<noteq> c \<Longrightarrow> rstrip_char c (X @ [c]) = X"
  by (cases X rule: rev_cases) (auto simp: rstrip_char_def)

lemma snoc_eq_occurrence_D:
  assumes "X @ [d] = u @ w @ v" "v \<noteq> []"
  shows "\<exists>v'. X = u @ w @ v'"
proof -
  from assms(2) obtain v' e where v: "v = v' @ [e]" by (cases v rule: rev_cases) auto
  with assms(1) have "X @ [d] = (u @ w @ v') @ [e]" by simp
  then have "X = u @ w @ v'" by (simp only: append1_eq_conv)
  then show ?thesis by blast
qed


lemma short_no_occurrence:
  "length X < 12 \<Longrightarrow> \<not> (\<exists>u v. X = u @ ''defaults to '' @ v)"
proof
  assume l: "length X < 12" and "\<exists>u v. X = u @ ''defaults to '' @ v"
  then obtain u v where "X = u @ ''defaults to '' @ v" by blast
  then have "length X = length (u @ ''defaults to '' @ v)" by (rule arg_cong)
  with l show False by simp
qed

lemma expandtabs_from_ws:
  "\<forall>c\<in>set w. is_space c \<and> c \<noteq> NL
   \<Longrightarrow> \<forall>c\<in>set (expandtabs_from col w). is_space c \<and> c \<noteq> NL"
proof (induction w arbitrary: col)
  case Nil
  then show ?case by simp
next
  case (Cons a w)
  have sp: "is_space SP" "SP \<noteq> NL" by (simp_all add: is_space_def)
  from Cons.prems have a: "is_space a" "a \<noteq> NL" and w: "\<forall>c\<in>set w. is_space c \<and> c \<noteq> NL"
    by simp_all
  show ?case
  proof (cases "a = TAB")
    case True
    then show ?thesis using Cons.IH [OF w] sp by (auto simp del: replicate.simps)
  next
    case False
    then show ?thesis using Cons.IH [OF w] a by auto
  qed
qed

lemma expandtabs_from_append_notab:
  "TAB \<notin> set s \<Longrightarrow> expandtabs_from col (w @ s) = expandtabs_from col w @ s"
  by (induction w arbitrary: col) (auto simp: expandtabs_from_id)

lemma split_on_append_sep:
  "sep \<notin> set a \<Longrightarrow> split_on sep (a @ sep # b) = a # split_on sep b"
  by (induction a) auto

lemma split_on_replicate_sep:
  "sep \<notin> set a \<Longrightarrow> split_on sep (a @ replicate n sep) = a # replicate n []"
proof (induction n arbitrary: a)
  case 0
  then show ?case by (simp add: split_on_no_sep)
next
  case (Suc n)
  have "split_on sep ([] @ replicate n sep) = [] # replicate n []"
    by (rule Suc.IH) simp
  then show ?case using Suc.prems by (simp add: split_on_append_sep)
qed

lemma fold_margin_step_blank: "fold margin_step (replicate n []) m = m"
  by (induction n) (auto simp: margin_step_def lstrip_def simp del: fold_replicate)

lemma lstrip_all_space: "\<forall>c\<in>set w. is_space c \<Longrightarrow> lstrip w = []"
  by (simp add: lstrip_def)

lemma cleandoc_blank:
  assumes "\<forall>c\<in>set w. is_space c \<and> c \<noteq> NL"
  shows "cleandoc (w @ replicate n NL) = []"
proof -
  let ?w = "expandtabs_from 0 w"
  have w': "\<forall>c\<in>set ?w. is_space c \<and> c \<noteq> NL" using assms by (rule expandtabs_from_ws)
  have "expandtabs (w @ replicate n NL) = ?w @ replicate n NL"
    by (simp add: expandtabs_def expandtabs_from_append_notab)
  moreover have "split_on NL (?w @ replicate n NL) = ?w # replicate n []"
    using w' by (intro split_on_replicate_sep) auto
  moreover have "lstrip ?w = []" using w' by (simp add: lstrip_all_space)
  moreover have h: "dropWhile (\<lambda>l. l = []) (replicate n ([]::string) @ [[]]) = []"
    unfolding dropWhile_eq_Nil_conv by simp
  ultimately show ?thesis
    by (simp add: cleandoc_def fold_margin_step_blank h del: fold_replicate)
qed

lemma split_on_Cons_other:
  "c \<noteq> sep \<Longrightarrow> \<exists>l ls. split_on sep (c # cs) = (c # l) # ls \<and> split_on sep cs = l # ls"
  by (cases "split_on sep cs") (auto simp: split_on_not_Nil)

lemma search_line_colon_split:
  assumes "bol \<longrightarrow> pre = [] \<or> hd pre \<noteq> COLON"
    and "\<forall>l\<in>set (tl (split_on NL pre)). l = [] \<or> hd l \<noteq> COLON"
    and "tail = [] \<or> (hd tail = COLON \<and> (if pre = [] then bol else last pre = NL))"
  shows "search_line_colon bol (pre @ tail) = (if tail = [] then None else Some (length pre))"
  using assms
proof (induction pre arbitrary: bol)
  case Nil
  then show ?case by (cases tail) auto
next
  case (Cons a pre)
  have first: "\<not> (bol \<and> a = COLON)" using Cons.prems(1) by auto
  have p1: "a = NL \<longrightarrow> pre = [] \<or> hd pre \<noteq> COLON"
  proof (intro impI)
    assume a: "a = NL"
    show "pre = [] \<or> hd pre \<noteq> COLON"
    proof (cases pre)
      case Nil
      then show ?thesis by simp
    next
      case (Cons c cs)
      show ?thesis
      proof (cases "c = NL")
        case True
        then show ?thesis using Cons by simp
      next
        case False
        from split_on_Cons_other [OF False, of cs]
        obtain l ls where "split_on NL (c # cs) = (c # l) # ls" by blast
        then have "c # l \<in> set (tl (split_on NL (a # pre)))" using a Cons by simp
        with Cons.prems(2) have "c \<noteq> COLON" by fastforce
        then show ?thesis using Cons by simp
      qed
    qed
  qed
  have p2: "\<forall>l\<in>set (tl (split_on NL pre)). l = [] \<or> hd l \<noteq> COLON"
  proof (cases "a = NL")
    case True
    then have "tl (split_on NL (a # pre)) = split_on NL pre" by simp
    then show ?thesis using Cons.prems(2) by (metis list.set_sel(2) split_on_not_Nil)
  next
    case False
    from split_on_Cons_other [OF False, of pre]
    obtain l ls where "split_on NL (a # pre) = (a # l) # ls" "split_on NL pre = l # ls" by blast
    then show ?thesis using Cons.prems(2) by simp
  qed
  have p3: "tail = [] \<or> (hd tail = COLON \<and> (if pre = [] then a = NL else last pre = NL))"
    using Cons.prems(3) by (cases "pre = []") auto
  have "search_line_colon (a = NL) (pre @ tail)
        = (if tail = [] then None else Some (length pre))"
    using p1 p2 p3 by (rule Cons.IH)
  then show ?case using first by auto
qed

lemma hd_first_line:
  "pre \<noteq> [] \<Longrightarrow> \<forall>l\<in>set (split_on NL pre). l = [] \<or> hd l \<noteq> COLON \<Longrightarrow> hd pre \<noteq> COLON"
proof (cases pre)
  case Nil
  assume "pre \<noteq> []"
  with Nil show ?thesis by simp
next
  case (Cons c cs)
  assume h: "\<forall>l\<in>set (split_on NL pre). l = [] \<or> hd l \<noteq> COLON"
  show ?thesis
  proof (cases "c = NL")
    case True
    then show ?thesis using Cons by simp
  next
    case False
    from split_on_Cons_other [OF False, of cs]
    obtain l ls where "split_on NL (c # cs) = (c # l) # ls" by blast
    with h Cons have "c \<noteq> COLON" by fastforce
    then show ?thesis using Cons by simp
  qed
qed

lemma search_line_colon_preamble:
  assumes "\<forall>l\<in>set (split_on NL pre). l = [] \<or> hd l \<noteq> COLON"
    and "tail = [] \<or> (hd tail = COLON \<and> (pre = [] \<or> last pre = NL))"
  shows "search_line_colon True (pre @ tail) = (if tail = [] then None else Some (length pre))"
proof (rule search_line_colon_split)
  show "True \<longrightarrow> pre = [] \<or> hd pre \<noteq> COLON" using hd_first_line [OF _ assms(1)] by blast
  show "\<forall>l\<in>set (tl (split_on NL pre)). l = [] \<or> hd l \<noteq> COLON"
    using assms(1) by (metis list.set_sel(2) split_on_not_Nil)
  show "tail = [] \<or> (hd tail = COLON \<and> (if pre = [] then True else last pre = NL))"
    using assms(2) by auto
qed

lemma starts_with_NL: "starts_with r [NL] \<longleftrightarrow> (\<exists>r'. r = NL # r')"
  by (cases r) (auto simp: starts_with_def)

lemma ends_with_NL_NL: "ends_with r [NL, NL] \<longleftrightarrow> (\<exists>r'. r = r' @ [NL, NL])"
proof
  assume "ends_with r [NL, NL]"
  then have "drop (length r - length [NL, NL]) r = [NL, NL]" by (simp only: ends_with_def)
  then have "r = take (length r - length [NL, NL]) r @ [NL, NL]" by (metis append_take_drop_id)
  then show "\<exists>r'. r = r' @ [NL, NL]" by blast
next
  assume "\<exists>r'. r = r' @ [NL, NL]"
  then show "ends_with r [NL, NL]" by (auto simp: ends_with_def)
qed

lemma cleandoc_Nil: "cleandoc [] = []"
  by (simp add: cleandoc_def expandtabs_def lstrip_def)

lemma parse_preamble:
  assumes "cleandoc text = pre @ tail" and "text \<noteq> []"
    and "\<forall>l\<in>set (split_on NL pre). l = [] \<or> hd l \<noteq> COLON"
    and "tail = [] \<or> (hd tail = COLON \<and> (pre = [] \<or> last pre = NL))"
  shows "parse kw text =
     (let parts = split1 NL pre;
          ret = (Docstring (Some REST))\<lparr>short_description := or_none (hd parts)\<rparr>;
          ret = (if length parts > 1
                 then ret\<lparr>blank_after_short_description := starts_with (parts ! 1) [NL],
                          blank_after_long_description := ends_with (parts ! 1) [NL, NL],
                          long_description := or_none (strip (parts ! 1))\<rparr>
                 else ret)
      in case parse_chunks kw (finditer_blocks tail) of
           Inl e \<Rightarrow> Inl e
         | Inr ms \<Rightarrow> Inr (ret\<lparr>meta := ms\<rparr>))"
proof -
  have s: "search_line_colon True (pre @ tail) = (if tail = [] then None else Some (length pre))"
    using assms(3,4) by (rule search_line_colon_preamble)
  show ?thesis
  proof (cases "tail = []")
    case True
    then show ?thesis using assms(1,2) s
      by (simp add: parse_def Let_def Docstring_def split: sum.splits)
  next
    case False
    then show ?thesis using assms(1,2) s
      by (simp add: parse_def Let_def Docstring_def split: sum.splits)
  qed
qed

section \<open>Parsing what \<open>compose\<close> writes\<close>

lemma compose_meta_eq:
  "compose_meta st ind m = COLON # tag_chunk m @ COLON # process_desc st ind (description m)"
  by (cases m) (simp_all add: compose_meta_def tag_chunk_def Let_def)

lemma splitlines_acc_plain:
  "\<forall>c\<in>set s. \<not> is_linebreak c \<Longrightarrow> acc @ s \<noteq> []
   \<Longrightarrow> splitlines_acc acc s = [rev acc @ s]"
proof (induction acc s rule: splitlines_acc.induct)
  case (1 cur)
  then show ?case by simp
next
  case (2 cur c)
  then show ?case by simp
next
  case (3 cur c d cs)
  have nb: "\<not> is_linebreak c" using "3.prems"(1) by simp
  have cr: "is_linebreak CR" by (simp add: is_linebreak_def)
  have notcr: "\<not> (c = CR \<and> d = NL)" using nb cr by blast
  have rest: "\<forall>x\<in>set (d # cs). \<not> is_linebreak x" using "3.prems"(1) by simp
  have ne: "(c # cur) @ d # cs \<noteq> []" by simp
  have ih: "splitlines_acc (c # cur) (d # cs) = [rev (c # cur) @ d # cs]"
    using notcr nb rest ne by (rule "3.IH"(3))
  have "splitlines_acc cur (c # d # cs) = splitlines_acc (c # cur) (d # cs)"
    using nb notcr by (simp only: splitlines_acc.simps if_False)
  then show ?case using ih by simp
qed

lemma splitlines_plain: "s \<noteq> [] \<Longrightarrow> \<forall>c\<in>set s. \<not> is_linebreak c \<Longrightarrow> splitlines s = [s]"
  using splitlines_acc_plain [of s "[]"] by (simp add: splitlines_def)

lemma process_desc_plain:
  assumes "desc = [] \<or> plain_line desc"
  shows "process_desc st ind (Some desc) = desc_body st ind desc"
proof (cases "desc = []")
  case True
  then show ?thesis by (simp add: process_desc_def desc_body_def)
next
  case False
  with assms have "\<forall>c\<in>set desc. \<not> is_linebreak c" by (simp add: plain_line_def)
  with False have sl: "splitlines desc = [desc]" by (rule splitlines_plain)
  show ?thesis using False
    by (cases st) (simp_all add: process_desc_def desc_body_def sl)
qed


























lemma stable_record_D:
  assumes "stable_record kw m"
  obtains desc where "description m = Some desc" "desc = [] \<or> plain_line desc"
    "build_meta kw (args m) desc = Inr m" "split_ws (tag_chunk m) = args m"
    "COLON \<notin> set (tag_chunk m)" "NL \<notin> set (tag_chunk m)" "TAB \<notin> set (tag_chunk m)"
    "tag_chunk m \<noteq> []"
proof -
  from assms obtain desc where d: "description m = Some desc" "desc = [] \<or> plain_line desc"
    "build_meta kw (args m) desc = Inr m"
    by (auto simp: stable_record_def split: option.splits)
  from assms have t: "split_ws (tag_chunk m) = args m"
    and c: "\<forall>c\<in>set (tag_chunk m). c \<noteq> COLON \<and> c \<noteq> NL \<and> c \<noteq> TAB"
    by (simp_all add: stable_record_def)
  have "args m \<noteq> []" using d(3) by (auto simp: build_meta_def)
  with t have "tag_chunk m \<noteq> []" by auto
  with d t c show ?thesis by (intro that [of desc]) auto
qed

lemma stable_record_render:
  assumes "stable_record kw m"
  obtains desc where "description m = Some desc" "desc = [] \<or> plain_line desc"
    "compose_meta st ind m = COLON # tag_chunk m @ COLON # desc_body st ind desc"
proof -
  from assms obtain desc where d: "description m = Some desc" "desc = [] \<or> plain_line desc"
    by (rule stable_record_D)
  have "compose_meta st ind m = COLON # tag_chunk m @ COLON # desc_body st ind desc"
    unfolding compose_meta_eq d(1) process_desc_plain [OF d(2)] ..
  with d show ?thesis by (rule that)
qed























lemma ends_with_short: "length x < 2 \<Longrightarrow> \<not> ends_with x [NL, NL]"
  by (simp add: ends_with_def)


















section \<open>Properties of single blocks\<close>

text \<open>
  A block is one match of the block scan; \<open>parse_chunk\<close> is what \<open>parse\<close> does with it.
  A block \<open>:tagc:body\<close> is written \<open>COLON # tagc @ COLON # body\<close>, where the tag chunk
  \<open>tagc\<close> holds no colon; its raw tokens are \<open>split_ws tagc\<close>.
\<close>

text \<open>
  Claim C5. A three-token param block of the shape \<open>:param <type>? <name>: defaults to X.\<close>
  is parsed to a Param record with \<open>is_optional\<close> true, \<open>type_name\<close> the type without its
  trailing question mark, \<open>arg_name\<close> the name and \<open>default\<close> the text \<open>X\<close>. Well-formed
  means here: the tag chunk holds no colon and splits into the three tokens, and \<open>X\<close> is on
  one line, does not end with a period and does not itself contain \<open>defaults to \<close>.
\<close>

theorem param_optional_type_default:
  assumes "key \<in> PARAM_KEYWORDS kw"
    and "COLON \<notin> set tagc" and "split_ws tagc = [key, ty @ ''?'', name]"
    and "NL \<notin> set X" and "X = [] \<or> last X \<noteq> DOT"
    and "\<not> (\<exists>u v. X = u @ ''defaults to '' @ v)"
  shows "parse_chunk kw (COLON # tagc @ '': defaults to '' @ X @ ''.'')
         = Inr (DocstringParam [key, ty @ ''?'', name] (Some (''defaults to '' @ X @ ''.''))
                  name (Some ty) (Some True) (Some X))"
proof -
  let ?body = "'' defaults to '' @ X @ ''.''"
  let ?desc = "''defaults to '' @ X @ ''.''"
  have ne: "tagc \<noteq> []" using assms(3) by auto
  have "strip ?body = strip ?desc" by (simp add: strip_Cons_space is_space_def)
  also have "\<dots> = ?desc" by (rule strip_id) (simp add: is_space_def)
  finally have st: "strip ?body = ?desc" .
  have nl: "NL \<notin> set (strip ?body)" unfolding st using assms(4) by simp
  from parse_chunk_tokens [OF ne assms(2), of kw ?body] nl st
  have pc: "parse_chunk kw (COLON # tagc @ COLON # ?body)
            = build_meta kw (split_ws tagc) ?desc"
    by auto
  have "\<not> (\<exists>u' v'. X @ ''.'' = u' @ ''defaults to '' @ v' \<and> v' \<noteq> [])"
    using assms(6) snoc_eq_occurrence_D [of X DOT _ "''defaults to ''"] by blast
  then have "match_defaults ([] @ ''defaults to '' @ (X @ ''.'')) = Some (X @ ''.'')"
    by (intro match_defaults_last) simp_all
  then have md: "match_defaults ?desc = Some (X @ ''.'')" by simp
  have rs: "rstrip_char DOT (X @ ''.'') = X"
    using assms(5) by (rule rstrip_char_snoc_other)
  have "build_meta kw [key, ty @ ''?'', name] ?desc
        = Inr (DocstringParam [key, ty @ ''?'', name] (Some ?desc) name (Some ty) (Some True) (Some X))"
    using assms(1) unfolding build_meta_def Let_def md by (simp add: rs)
  then show ?thesis using pc assms(3) by simp
qed

theorem param_optional_type_default_witness:
  "''param'' \<in> PARAM_KEYWORDS rest_keywords
   \<and> COLON \<notin> set ''param int? x''
   \<and> split_ws ''param int? x'' = [''param'', ''int'' @ ''?'', ''x'']
   \<and> NL \<notin> set ''5'' \<and> (''5'' = [] \<or> last ''5'' \<noteq> DOT)
   \<and> \<not> (\<exists>u v. ''5'' = u @ ''defaults to '' @ v)
   \<and> parse_chunk rest_keywords '':param int? x: defaults to 5.''
       = Inr (DocstringParam [''param'', ''int?'', ''x''] (Some ''defaults to 5.'')
                ''x'' (Some ''int'') (Some True) (Some ''5''))"
proof -
  have h1: "''param'' \<in> PARAM_KEYWORDS rest_keywords" by (simp add: rest_keywords_def)
  have h2: "COLON \<notin> set ''param int? x''" by simp
  have h3: "split_ws ''param int? x'' = [''param'', ''int'' @ ''?'', ''x'']"
    by (simp add: is_space_def)
  have h4: "NL \<notin> set ''5''" by simp
  have h5: "''5'' = [] \<or> last ''5'' \<noteq> DOT" by simp
  have h6: "\<not> (\<exists>u v. ''5'' = u @ ''defaults to '' @ v)"
    by (rule short_no_occurrence) simp
  show ?thesis
    using h1 h2 h3 h4 h5 h6 param_optional_type_default [OF h1 h2 h3 h4 h5 h6] by simp
qed

text \<open>
  Claim C6. A param-family block with two tokens, the keyword and the name, is parsed to
  a Param record whose \<open>type_name\<close> is absent and whose \<open>is_optional\<close> is the unknown
  value \<open>None\<close>, which is distinct from \<open>Some False\<close>.
\<close>

theorem param_two_tokens_unknown_optional:
  assumes "key \<in> PARAM_KEYWORDS kw"
    and "COLON \<notin> set tagc" and "split_ws tagc = [key, name]"
  shows "\<exists>desc dflt. parse_chunk kw (COLON # tagc @ COLON # body)
           = Inr (DocstringParam [key, name] (Some desc) name None None dflt)"
proof -
  have ne: "tagc \<noteq> []" using assms(3) by auto
  from parse_chunk_tokens [OF ne assms(2), of kw body]
  obtain desc where "parse_chunk kw (COLON # tagc @ COLON # body)
                     = build_meta kw [key, name] desc"
    using assms(3) by auto
  then show ?thesis using assms(1) by (simp add: build_meta_def)
qed

theorem param_two_tokens_unknown_optional_witness:
  "''param'' \<in> PARAM_KEYWORDS rest_keywords
   \<and> COLON \<notin> set ''param x'' \<and> split_ws ''param x'' = [''param'', ''x'']
   \<and> (\<exists>desc dflt. parse_chunk rest_keywords '':param x: the x''
           = Inr (DocstringParam [''param'', ''x''] (Some desc) ''x'' None None dflt))"
proof -
  have h1: "''param'' \<in> PARAM_KEYWORDS rest_keywords" by (simp add: rest_keywords_def)
  have h2: "COLON \<notin> set ''param x''" by simp
  have h3: "split_ws ''param x'' = [''param'', ''x'']" by (simp add: is_space_def)
  show ?thesis
    using h1 h2 h3 param_two_tokens_unknown_optional [OF h1 h2 h3, of "'' the x''"] by simp
qed

text \<open>
  Claim C9. A block whose keyword is in the deprecated family (and in none of the
  families that \<open>_build_meta\<close> tests before it) is parsed to a Deprecated record
  whatever the number of its tokens: no arity is checked and no error is raised.
\<close>

theorem deprecated_no_arity_check:
  assumes "key \<in> DEPRECATION_KEYWORDS kw"
    and "key \<notin> PARAM_KEYWORDS kw" and "key \<notin> RETURNS_KEYWORDS kw"
    and "key \<notin> YIELDS_KEYWORDS kw"
    and "COLON \<notin> set tagc" and "split_ws tagc = key # others"
  shows "\<exists>desc ver. parse_chunk kw (COLON # tagc @ COLON # body)
           = Inr (DocstringDeprecated (key # others) desc ver)"
proof -
  have ne: "tagc \<noteq> []" using assms(6) by auto
  from parse_chunk_tokens [OF ne assms(5), of kw body]
  obtain desc where "parse_chunk kw (COLON # tagc @ COLON # body)
                     = build_meta kw (key # others) desc"
    using assms(6) by auto
  then show ?thesis using assms(1-4)
    by (auto simp add: build_meta_def split: option.splits)
qed

theorem deprecated_no_arity_check_witness:
  "''deprecated'' \<in> DEPRECATION_KEYWORDS rest_keywords
   \<and> ''deprecated'' \<notin> PARAM_KEYWORDS rest_keywords
   \<and> ''deprecated'' \<notin> RETURNS_KEYWORDS rest_keywords
   \<and> ''deprecated'' \<notin> YIELDS_KEYWORDS rest_keywords
   \<and> COLON \<notin> set ''deprecated a b c d''
   \<and> split_ws ''deprecated a b c d'' = ''deprecated'' # [''a'', ''b'', ''c'', ''d'']
   \<and> (\<exists>desc ver. parse_chunk rest_keywords '':deprecated a b c d: 1.2.3 gone''
           = Inr (DocstringDeprecated (''deprecated'' # [''a'', ''b'', ''c'', ''d'']) desc ver))"
proof -
  have h1: "''deprecated'' \<in> DEPRECATION_KEYWORDS rest_keywords"
    and h2: "''deprecated'' \<notin> PARAM_KEYWORDS rest_keywords"
    and h3: "''deprecated'' \<notin> RETURNS_KEYWORDS rest_keywords"
    and h4: "''deprecated'' \<notin> YIELDS_KEYWORDS rest_keywords"
    by (simp_all add: rest_keywords_def)
  have h5: "COLON \<notin> set ''deprecated a b c d''" by simp
  have h6: "split_ws ''deprecated a b c d'' = ''deprecated'' # [''a'', ''b'', ''c'', ''d'']"
    by (simp add: is_space_def)
  show ?thesis
    using h1 h2 h3 h4 h5 h6
      deprecated_no_arity_check [OF h1 h2 h3 h4 h5 h6, of "'' 1.2.3 gone''"]
    by simp
qed

text \<open>
  Claim C10 states that with several occurrences of \<open>defaults to\<close> the default is the text
  after the last one. The pattern holds a space after \<open>to\<close> and needs a character after
  it, so an occurrence that is not followed by a space is passed over: here the last
  occurrence starts \<open>defaults tomorrow\<close>, and the default is taken from the first one.
\<close>

theorem defaults_to_counterexample:
  "parse rest_keywords '':param x: n defaults to 1 or defaults tomorrow''
   = Inr ((Docstring (Some REST))\<lparr>meta :=
       [DocstringParam [''param'', ''x''] (Some ''n defaults to 1 or defaults tomorrow'')
          ''x'' None None (Some ''1 or defaults tomorrow'')]\<rparr>)
   \<and> ''n defaults to 1 or defaults tomorrow''
       = ''n defaults to 1 or '' @ ''defaults to'' @ ''morrow''"
  by code_simp

text \<open>
  Claim C10, amended. When the description of a param-family block (two or three tokens)
  contains \<open>defaults to \<close>, with its space, followed by at least one character, the
  default is the text after the last such occurrence, to the end of the description and
  with trailing periods stripped. The match is case-sensitive: \<open>Defaults to X\<close> gives no
  default.
\<close>

theorem defaults_to_last_occurrence:
  assumes "key \<in> PARAM_KEYWORDS kw"
    and "toks = [key, name] \<or> toks = [key, ty, name]"
    and "v \<noteq> []"
    and "\<not> (\<exists>u' v'. v = u' @ ''defaults to '' @ v' \<and> v' \<noteq> [])"
  shows "(\<exists>m. build_meta kw toks (u @ ''defaults to '' @ v) = Inr m
              \<and> default m = Some (rstrip_char DOT v))
         \<and> (\<exists>m. build_meta kw toks ''Defaults to X'' = Inr m \<and> default m = None)"
proof -
  have md: "match_defaults (u @ ''defaults to '' @ v) = Some v"
    using assms(3,4) by (rule match_defaults_last)
  have "\<exists>m. build_meta kw toks (u @ ''defaults to '' @ v) = Inr m
              \<and> default m = Some (rstrip_char DOT v)"
    using assms(1,2) unfolding build_meta_def Let_def md by auto
  moreover have "match_defaults ''Defaults to X'' = None" by simp
  then have "\<exists>m. build_meta kw toks ''Defaults to X'' = Inr m \<and> default m = None"
    using assms(1,2) unfolding build_meta_def Let_def by auto
  ultimately show ?thesis by blast
qed

theorem defaults_to_last_occurrence_witness:
  "''param'' \<in> PARAM_KEYWORDS rest_keywords
   \<and> ([''param'', ''x''] = [''param'', ''x''] \<or> [''param'', ''x''] = [''param'', ''int'', ''x''])
   \<and> ''2.'' \<noteq> []
   \<and> \<not> (\<exists>u' v'. ''2.'' = u' @ ''defaults to '' @ v' \<and> v' \<noteq> [])
   \<and> (\<exists>m. build_meta rest_keywords [''param'', ''x''] (''defaults to 1, defaults to '' @ ''2.'') = Inr m
           \<and> default m = Some ''2'')
   \<and> (\<exists>m. build_meta rest_keywords [''param'', ''x''] ''Defaults to X'' = Inr m \<and> default m = None)"
proof -
  have h1: "''param'' \<in> PARAM_KEYWORDS rest_keywords" by (simp add: rest_keywords_def)
  have h2: "[''param'', ''x''] = [''param'', ''x''] \<or> [''param'', ''x''] = [''param'', ''int'', ''x'']"
    by simp
  have h3: "''2.'' \<noteq> []" by simp
  have h4: "\<not> (\<exists>u' v'. ''2.'' = u' @ ''defaults to '' @ v' \<and> v' \<noteq> [])"
    using short_no_occurrence [of "''2.''"] by auto
  have r: "rstrip_char DOT ''2.'' = ''2''" by (simp add: rstrip_char_def)
  show ?thesis
    using h1 h2 h3 h4 defaults_to_last_occurrence [OF h1 h2 h3 h4, of "''defaults to 1, ''"]
    by (simp add: r)
qed

text \<open>
  Claim C4 states that the description of a deprecated record is the entire text after the
  version. The version pattern is applied without \<open>re.DOTALL\<close>, unlike the pattern for
  defaults, so its last group stops at the first line feed: the lines after the first
  are dropped from the record.
\<close>

theorem deprecated_multiline_truncated:
  "parse rest_keywords ('':deprecated: 1.2.3 foo'' @ [NL] @ ''bar'')
   = Inr ((Docstring (Some REST))\<lparr>meta :=
       [DocstringDeprecated [''deprecated''] (Some ''foo'') (Some ''1.2.3'')]\<rparr>)"
  by code_simp

section \<open>Properties of \<open>parse\<close>\<close>

text \<open>
  Claim C3 states that \<open>parse\<close> raises a ParseError exactly when some block lacks its
  second delimiter or violates the arity of its family. A block whose tag chunk holds no
  token, such as \<open>: : x\<close>, makes \<open>_build_meta\<close> read \<open>args[0]\<close> of an empty list: the
  IndexError leaves \<open>parse\<close> before the four-token param block after it is seen.
\<close>

theorem empty_tag_index_error:
  "parse rest_keywords ('': : x'' @ [NL] @ '':param a b c: y'') = Inl IndexError"
  by code_simp

text \<open>
  Claim C8 states that every whitespace-only input gives the empty document. For the
  input of a line feed and a space, \<open>cleandoc\<close> keeps the space, the second line being
  neither stripped nor empty, and the space becomes the short description.
\<close>

theorem whitespace_only_counterexample:
  "is_space NL \<and> is_space SP
   \<and> parse rest_keywords [NL, SP]
       = Inr ((Docstring (Some REST))\<lparr>short_description := Some [SP]\<rparr>)"
  by code_simp

text \<open>
  Claim C8, amended. For the empty input, and for every whitespace-only input in which
  all lines after the first are empty, \<open>parse\<close> returns the empty document: no short and
  no long description, both blank-line flags false, no items.
\<close>

theorem blank_input_empty_document:
  assumes "\<forall>c\<in>set w. is_space c \<and> c \<noteq> NL"
  shows "parse kw (w @ replicate n NL) = Inr (Docstring (Some REST))"
proof -
  have "cleandoc (w @ replicate n NL) = []" using assms by (rule cleandoc_blank)
  then show ?thesis
    by (simp add: parse_def Let_def finditer_blocks_def split1_miss or_none_def Docstring_def)
qed

theorem blank_input_empty_document_witness:
  "parse rest_keywords ([SP, TAB, CHR 0x0B, SP] @ replicate 2 NL) = Inr (Docstring (Some REST))
   \<and> parse rest_keywords ([] @ replicate 0 NL) = Inr (Docstring (Some REST))"
proof -
  have h: "\<forall>c\<in>set [SP, TAB, CHR 0x0B, SP]. is_space c \<and> c \<noteq> NL"
    by (simp add: is_space_def)
  have e: "\<forall>c\<in>set []. is_space c \<and> c \<noteq> NL" by simp
  show ?thesis
    using blank_input_empty_document [OF h, of rest_keywords 2]
      blank_input_empty_document [OF e, of rest_keywords 0]
    by simp
qed

text \<open>
  Claim C7. The two example texts parse as stated. In general, let the cleaned text be
  \<open>s @ NL # r @ tail\<close>, where \<open>s\<close> is the first line, no line of the preamble
  \<open>s @ NL # r\<close> starts with a colon, and \<open>tail\<close> is empty or starts with a colon at a
  line start; so \<open>r\<close> is the remainder of the preamble after its first line break. Then
  \<open>blank_after_short_description\<close> holds iff \<open>r\<close> begins with a line break,
  \<open>blank_after_long_description\<close> holds iff \<open>r\<close> ends with two line breaks, and the long
  description is \<open>r\<close> stripped, or absent when that is empty.
\<close>

theorem blank_line_flags:
  assumes "parse kw text = Inr d"
    and "cleandoc text = s @ NL # r @ tail" and "NL \<notin> set s"
    and "\<forall>l\<in>set (split_on NL (s @ NL # r)). l = [] \<or> hd l \<noteq> COLON"
    and "tail = [] \<or> (hd tail = COLON \<and> (r = [] \<or> last r = NL))"
  shows "parse kw (''Short.'' @ [NL, NL] @ ''Long.'')
           = Inr ((Docstring (Some REST))\<lparr>short_description := Some ''Short.'',
                    long_description := Some ''Long.'',
                    blank_after_short_description := True\<rparr>)
         \<and> parse kw (''Short.'' @ [NL] @ ''Long.'')
           = Inr ((Docstring (Some REST))\<lparr>short_description := Some ''Short.'',
                    long_description := Some ''Long.'',
                    blank_after_short_description := False\<rparr>)
         \<and> (blank_after_short_description d \<longleftrightarrow> (\<exists>r'. r = NL # r'))
         \<and> (blank_after_long_description d \<longleftrightarrow> (\<exists>r'. r = r' @ [NL, NL]))
         \<and> long_description d = (if strip r = [] then None else Some (strip r))"
proof -
  have ex1: "parse kw (''Short.'' @ [NL, NL] @ ''Long.'')
           = Inr ((Docstring (Some REST))\<lparr>short_description := Some ''Short.'',
                    long_description := Some ''Long.'',
                    blank_after_short_description := True\<rparr>)"
    by code_simp
  have ex2: "parse kw (''Short.'' @ [NL] @ ''Long.'')
           = Inr ((Docstring (Some REST))\<lparr>short_description := Some ''Short.'',
                    long_description := Some ''Long.'',
                    blank_after_short_description := False\<rparr>)"
    by code_simp
  have ne: "text \<noteq> []" using assms(2) cleandoc_Nil by auto
  have cd: "cleandoc text = (s @ NL # r) @ tail" using assms(2) by simp
  have tl: "tail = [] \<or> (hd tail = COLON \<and> (s @ NL # r = [] \<or> last (s @ NL # r) = NL))"
    using assms(5) by auto
  have sp: "split1 NL (s @ NL # r) = [s, r]" using assms(3) by (rule split1_hit)
  from parse_preamble [OF cd ne assms(4) tl, of kw] assms(1)
  have "blank_after_short_description d = starts_with r [NL]
        \<and> blank_after_long_description d = ends_with r [NL, NL]
        \<and> long_description d = or_none (strip r)"
    unfolding sp Let_def by (auto split: sum.splits)
  then show ?thesis
    using ex1 ex2 by (simp add: starts_with_NL ends_with_NL_NL or_none_def)
qed

theorem blank_line_flags_witness:
  "(parse rest_keywords (''Short.'' @ [NL, NL] @ ''Long.'' @ [NL, NL] @ '':note: z'')
      = Inr \<lparr>short_description = Some ''Short.'', long_description = Some ''Long.'',
             blank_after_short_description = True, blank_after_long_description = True,
             meta = [DocstringMeta [''note''] (Some ''z'')], style = Some REST\<rparr>
    \<and> cleandoc (''Short.'' @ [NL, NL] @ ''Long.'' @ [NL, NL] @ '':note: z'')
        = ''Short.'' @ NL # (NL # ''Long.'' @ [NL, NL]) @ '':note: z''
    \<and> NL \<notin> set ''Short.''
    \<and> split_on NL (''Short.'' @ NL # (NL # ''Long.'' @ [NL, NL])) = [''Short.'', [], ''Long.'', [], []]
    \<and> hd '':note: z'' = COLON \<and> last (NL # ''Long.'' @ [NL, NL]) = NL)
   \<and> (\<exists>r'. NL # ''Long.'' @ [NL, NL] = NL # r')
   \<and> (\<exists>r'. NL # ''Long.'' @ [NL, NL] = r' @ [NL, NL])"
proof -
  let ?d = "\<lparr>short_description = Some ''Short.'', long_description = Some ''Long.'',
             blank_after_short_description = True, blank_after_long_description = True,
             meta = [DocstringMeta [''note''] (Some ''z'')], style = Some REST\<rparr>"
  have h1: "parse rest_keywords (''Short.'' @ [NL, NL] @ ''Long.'' @ [NL, NL] @ '':note: z'')
            = Inr ?d"
    by code_simp
  have h2: "cleandoc (''Short.'' @ [NL, NL] @ ''Long.'' @ [NL, NL] @ '':note: z'')
            = ''Short.'' @ NL # (NL # ''Long.'' @ [NL, NL]) @ '':note: z''"
    by code_simp
  have h3: "NL \<notin> set ''Short.''" by simp
  have h4: "\<forall>l\<in>set (split_on NL (''Short.'' @ NL # (NL # ''Long.'' @ [NL, NL]))).
              l = [] \<or> hd l \<noteq> COLON"
    by simp
  have h5: "'':note: z'' = [] \<or> (hd '':note: z'' = COLON
              \<and> ((NL # ''Long.'' @ [NL, NL]) = [] \<or> last (NL # ''Long.'' @ [NL, NL]) = NL))"
    by simp
  from blank_line_flags [OF h1 h2 h3 h4 h5]
  have "(blank_after_short_description ?d \<longleftrightarrow> (\<exists>r'. NL # ''Long.'' @ [NL, NL] = NL # r'))
        \<and> (blank_after_long_description ?d \<longleftrightarrow> (\<exists>r'. NL # ''Long.'' @ [NL, NL] = r' @ [NL, NL]))"
    by blast
  then have c: "(\<exists>r'. NL # ''Long.'' @ [NL, NL] = NL # r')
                \<and> (\<exists>r'. NL # ''Long.'' @ [NL, NL] = r' @ [NL, NL])"
    by simp
  have h4': "split_on NL (''Short.'' @ NL # (NL # ''Long.'' @ [NL, NL]))
             = [''Short.'', [], ''Long.'', [], []]"
    by simp
  have h5': "hd '':note: z'' = COLON" "last (NL # ''Long.'' @ [NL, NL]) = NL" by simp_all
  show ?thesis using h1 h2 h3 h4' h5' c by blast
qed

section \<open>Round trip\<close>







end
